theory Spec2Isabelle
  imports Complex_Main "HOL-Library.AList"
begin

section \<open>Data model\<close>

text \<open>
  A Python \<open>str\<close> is a sequence of Unicode code points, so it is modelled as a list of
  natural numbers (Isabelle's \<open>char\<close> is a byte and cannot hold \<open>chr(300)\<close>).
  \<open>str_lit\<close> turns an ASCII literal of the source into such a sequence.

  JSON numbers and Python floats are modelled as exact reals: comparisons of finite
  numbers agree with the reals; IEEE rounding error, overflow and NaN are outside the
  model.
\<close>

type_synonym pystr = "nat list"

definition str_lit :: "string \<Rightarrow> pystr" where
  "str_lit s = map of_char s"

datatype py_error = ValueError | OverflowError | ZeroDivisionError | FileNotFoundError

text \<open>Node: \<open>{id, x, y, label}\<close>; edge: \<open>{from, to, weight}\<close>; document: \<open>{nodes, edges}\<close>.\<close>

record node =
  node_id :: pystr
  node_x :: real
  node_y :: real
  node_label :: pystr

record edge =
  edge_from :: pystr
  edge_to :: pystr
  edge_weight :: real

record graph_document =
  nodes :: "node list"
  edges :: "edge list"

section \<open>Python built-ins used by the scripts\<close>

text \<open>\<open>min(xs)\<close> raises \<open>ValueError\<close> on an empty sequence; otherwise it scans left to
  right and keeps the current item unless a later one is strictly smaller.\<close>

definition py_min :: "real list \<Rightarrow> py_error + real" where
  "py_min xs = (case xs of [] \<Rightarrow> Inl ValueError
                | v # vs \<Rightarrow> Inr (fold (\<lambda>a m. if a < m then a else m) vs v))"

definition py_max :: "real list \<Rightarrow> py_error + real" where
  "py_max xs = (case xs of [] \<Rightarrow> Inl ValueError
                | v # vs \<Rightarrow> Inr (fold (\<lambda>a m. if a > m then a else m) vs v))"

section \<open>scripts/filter\_network.py\<close>

definition ref_nodes :: "pystr list" where
  "ref_nodes = map str_lit
     [''3339821648'', ''250691723'', ''250691724'', ''250698924'', ''250698925'',
      ''250698926'', ''250699982'', ''250699983'', ''250702474'', ''250700248'']"

text \<open>Line 13: \<open>[n['x'] for n in data['nodes'] if n['id'] in ref_nodes]\<close>.\<close>

definition ref_x_coords :: "graph_document \<Rightarrow> real list" where
  "ref_x_coords data = map node_x (filter (\<lambda>n. node_id n \<in> set ref_nodes) (nodes data))"

text \<open>Line 18: \<open>[n for n in data['nodes'] if n['x'] >= min_x]\<close>.\<close>

definition nodes_to_keep :: "real \<Rightarrow> graph_document \<Rightarrow> node list" where
  "nodes_to_keep min_x data = filter (\<lambda>n. node_x n \<ge> min_x) (nodes data)"

text \<open>Line 19: the set of the kept nodes' ids.\<close>

definition node_ids_to_keep :: "real \<Rightarrow> graph_document \<Rightarrow> pystr set" where
  "node_ids_to_keep min_x data = set (map node_id (nodes_to_keep min_x data))"

text \<open>Lines 22-23: the edges whose two endpoints are both kept.\<close>

definition edges_to_keep :: "real \<Rightarrow> graph_document \<Rightarrow> edge list" where
  "edges_to_keep min_x data =
     filter (\<lambda>e. edge_from e \<in> node_ids_to_keep min_x data \<and>
                 edge_to e \<in> node_ids_to_keep min_x data) (edges data)"

text \<open>The transformation of lines 13-32 on the loaded document: the threshold and
  \<open>filtered_data\<close>, or the exception of \<open>min\<close>.\<close>

definition filter_network :: "graph_document \<Rightarrow> py_error + (real \<times> graph_document)" where
  "filter_network data =
     (case py_min (ref_x_coords data) of
        Inl e \<Rightarrow> Inl e
      | Inr min_x \<Rightarrow>
          Inr (min_x, \<lparr>nodes = nodes_to_keep min_x data, edges = edges_to_keep min_x data\<rparr>))"

text \<open>
  The whole script on its environment: the parsed content of
  \<open>scripts/network_data.json\<close> (\<open>None\<close> when the file does not exist) and the lines
  printed so far. An exception leaves the environment as it was when it was raised.
\<close>

datatype out_line =
    MinimumX real
  | Original nat nat
  | Filtered nat nat
  | Saved

record world =
  json_file :: "graph_document option"
  stdout :: "out_line list"

definition print_line :: "out_line \<Rightarrow> world \<Rightarrow> world" where
  "print_line l w = w\<lparr>stdout := stdout w @ [l]\<rparr>"

definition filter_script :: "world \<Rightarrow> py_error option \<times> world" where
  "filter_script w =
     (case json_file w of
        None \<Rightarrow> (Some FileNotFoundError, w)
      | Some data \<Rightarrow>
          (case py_min (ref_x_coords data) of
             Inl e \<Rightarrow> (Some e, w)
           | Inr min_x \<Rightarrow>
               (let w1 = print_line (MinimumX min_x) w;
                    kept_nodes = nodes_to_keep min_x data;
                    kept_edges = edges_to_keep min_x data;
                    w2 = print_line (Original (length (nodes data)) (length (edges data))) w1;
                    w3 = print_line (Filtered (length kept_nodes) (length kept_edges)) w2;
                    filtered_data = \<lparr>nodes = kept_nodes, edges = kept_edges\<rparr>;
                    w4 = w3\<lparr>json_file := Some filtered_data\<rparr>
                in (None, print_line Saved w4))))"

section \<open>scripts/generate\_network.py\<close>

subsection \<open>Built-ins: \<open>round\<close>, \<open>chr\<close>, \<open>str\<close>, \<open>dict.get\<close>\<close>

text \<open>\<open>round(v, ndigits)\<close> rounds to the nearest multiple of \<open>10 ** -ndigits\<close>, ties to
  the even one.\<close>

definition round_half_even :: "real \<Rightarrow> int" where
  "round_half_even v =
     (let f = \<lfloor>v\<rfloor>; d = v - of_int f
      in if d < 1 / 2 then f
         else if d > 1 / 2 then f + 1
         else if even f then f else f + 1)"

definition py_round :: "real \<Rightarrow> nat \<Rightarrow> real" where
  "py_round v ndigits = of_int (round_half_even (v * 10 ^ ndigits)) / 10 ^ ndigits"

text \<open>\<open>chr(i)\<close>: the code point \<open>i\<close>; \<open>ValueError\<close> outside \<open>range(0x110000)\<close>,
  \<open>OverflowError\<close> when \<open>i\<close> does not fit a C int.\<close>

definition py_chr :: "int \<Rightarrow> py_error + nat" where
  "py_chr i =
     (if 0 \<le> i \<and> i < 1114112 then Inr (nat i)
      else if - 2147483648 \<le> i \<and> i \<le> 2147483647 then Inl ValueError
      else Inl OverflowError)"

text \<open>\<open>str(n)\<close> of an integer: its decimal digits, with a minus sign when negative.\<close>

fun str_nat :: "nat \<Rightarrow> pystr" where
  "str_nat n = (if n < 10 then [48 + n] else str_nat (n div 10) @ [48 + n mod 10])"

declare str_nat.simps [simp del]

definition str_int :: "int \<Rightarrow> pystr" where
  "str_int i = (if i < 0 then 45 # str_nat (nat (- i)) else str_nat (nat i))"

definition dict_get :: "'a option \<Rightarrow> 'a \<Rightarrow> 'a" where
  "dict_get v d = (case v of None \<Rightarrow> d | Some a \<Rightarrow> a)"

text \<open>\<open>a / b\<close> raises \<open>ZeroDivisionError\<close> when \<open>b\<close> is zero.\<close>

definition py_truediv :: "real \<Rightarrow> real \<Rightarrow> py_error + real" where
  "py_truediv a b = (if b = 0 then Inl ZeroDivisionError else Inr (a / b))"

subsection \<open>The provider's graph and the random source\<close>

text \<open>
  The graph \<open>G\<close> returned by the provider is an input: \<open>G.nodes(data=True)\<close> is a
  sequence of node ids with their attributes (\<open>x\<close> and \<open>y\<close> may be missing),
  \<open>G.edges(data=True)\<close> a sequence of endpoint pairs (the edge attributes are not read).
  The successive results of \<open>random.uniform(1, 20)\<close> are an input too: \<open>uniform k\<close> is
  the result of call number \<open>k\<close>.
\<close>

record raw_node_data =
  raw_x :: "real option"
  raw_y :: "real option"

record raw_graph =
  G_nodes :: "(int \<times> raw_node_data) list"
  G_edges :: "(int \<times> int) list"

subsection \<open>Lines 33-40: node positions\<close>

text \<open>\<open>node_positions\<close> is a dict: assigning to a key that is present replaces the value
  in place, a new key goes to the end.\<close>

definition node_positions :: "raw_graph \<Rightarrow> (int \<times> real \<times> real) list" where
  "node_positions G =
     fold (\<lambda>(nid, data) np.
             AList.update nid (dict_get (raw_x data) 0, dict_get (raw_y data) 0) np)
          (G_nodes G) []"

subsection \<open>Lines 43-68: bounding box, padding, scale\<close>

definition padding :: real where "padding = 1 / 10"
definition svg_width :: real where "svg_width = 750"
definition svg_height :: real where "svg_height = 550"
definition margin :: real where "margin = 25"

text \<open>The names bound by lines 46-68 that the rest of the script reads, with the two
  per-axis scales.\<close>

record norm =
  norm_min_x :: real
  norm_min_y :: real
  norm_scale_x :: real
  norm_scale_y :: real
  norm_scale :: real

definition compute_scale :: "(int \<times> real \<times> real) list \<Rightarrow> py_error + norm" where
  "compute_scale np =
     (let all_x = map (\<lambda>(nid, pos). fst pos) np;
          all_y = map (\<lambda>(nid, pos). snd pos) np
      in case py_min all_x of Inl e \<Rightarrow> Inl e | Inr min_x \<Rightarrow>
         (case py_max all_x of Inl e \<Rightarrow> Inl e | Inr max_x \<Rightarrow>
         (case py_min all_y of Inl e \<Rightarrow> Inl e | Inr min_y \<Rightarrow>
         (case py_max all_y of Inl e \<Rightarrow> Inl e | Inr max_y \<Rightarrow>
           (let x_range = max_x - min_x;
                y_range = max_y - min_y;
                min_x = min_x - x_range * padding;
                max_x = max_x + x_range * padding;
                min_y = min_y - y_range * padding;
                max_y = max_y + y_range * padding;
                x_range = max_x - min_x;
                y_range = max_y - min_y
            in case (if x_range > 0 then py_truediv (svg_width - 2 * margin) x_range
                     else Inr 1) of
                 Inl e \<Rightarrow> Inl e
               | Inr scale_x \<Rightarrow>
                   (case (if y_range > 0 then py_truediv (svg_height - 2 * margin) y_range
                          else Inr 1) of
                      Inl e \<Rightarrow> Inl e
                    | Inr scale_y \<Rightarrow>
                        (let scale = (if scale_y < scale_x then scale_y else scale_x)
                         in Inr \<lparr>norm_min_x = min_x, norm_min_y = min_y,
                                 norm_scale_x = scale_x, norm_scale_y = scale_y,
                                 norm_scale = scale\<rparr>)))))))"

subsection \<open>Lines 70-88: nodes and labels\<close>

definition label :: "nat \<Rightarrow> py_error + pystr" where
  "label idx =
     (if idx < 26 then
        (case py_chr (65 + int idx) of Inl e \<Rightarrow> Inl e | Inr c \<Rightarrow> Inr [c])
      else
        (case py_chr (65 + (int idx div 26 - 1)) of Inl e \<Rightarrow> Inl e | Inr c1 \<Rightarrow>
        (case py_chr (65 + (int idx mod 26)) of Inl e \<Rightarrow> Inl e | Inr c2 \<Rightarrow>
           Inr ([c1] @ [c2]))))"

text \<open>The loop of line 72 from index \<open>idx\<close> on, over the remaining items of
  \<open>node_positions\<close>; the state is the list \<open>nodes\<close> and the dict \<open>node_id_map\<close>.\<close>

fun nodes_loop ::
  "norm \<Rightarrow> nat \<Rightarrow> (int \<times> real \<times> real) list \<Rightarrow> node list \<times> (int \<rightharpoonup> pystr)
     \<Rightarrow> py_error + (node list \<times> (int \<rightharpoonup> pystr))" where
  "nodes_loop p idx [] st = Inr st"
| "nodes_loop p idx ((nid, x, y) # rest) (nodes_acc, node_id_map) =
     (let normalized_x = margin + (x - norm_min_x p) * norm_scale p;
          normalized_y = margin + (y - norm_min_y p) * norm_scale p
      in case label idx of
           Inl e \<Rightarrow> Inl e
         | Inr l \<Rightarrow>
             nodes_loop p (idx + 1) rest
               (nodes_acc @ [\<lparr>node_id = str_int nid,
                               node_x = py_round normalized_x 2,
                               node_y = py_round normalized_y 2,
                               node_label = l\<rparr>],
                node_id_map(nid \<mapsto> str_int nid)))"

subsection \<open>Lines 90-99: edges and weights\<close>

text \<open>The loop of line 91; \<open>k\<close> counts the calls of \<open>random.uniform\<close> made so far.\<close>

fun edges_loop ::
  "(int \<rightharpoonup> pystr) \<Rightarrow> (nat \<Rightarrow> real) \<Rightarrow> nat \<Rightarrow> (int \<times> int) list \<Rightarrow> edge list \<Rightarrow> edge list" where
  "edges_loop node_id_map uniform k [] edges_acc = edges_acc"
| "edges_loop node_id_map uniform k ((u, v) # rest) edges_acc =
     (case node_id_map u of
        None \<Rightarrow> edges_loop node_id_map uniform k rest edges_acc
      | Some from_id \<Rightarrow>
          (case node_id_map v of
             None \<Rightarrow> edges_loop node_id_map uniform k rest edges_acc
           | Some to_id \<Rightarrow>
               (let weight = py_round (uniform k) 1
                in edges_loop node_id_map uniform (k + 1) rest
                     (edges_acc @ [\<lparr>edge_from = from_id, edge_to = to_id,
                                     edge_weight = weight\<rparr>]))))"

subsection \<open>The script\<close>

text \<open>
  The result is the document \<open>output\<close> written to the file, with the values bound by
  the normalization; these are \<open>None\<close> when the block guarded by
  \<open>if node_positions:\<close> is skipped, where the names stay unbound.
\<close>

definition generate_network ::
  "raw_graph \<Rightarrow> (nat \<Rightarrow> real) \<Rightarrow> py_error + (norm option \<times> graph_document)" where
  "generate_network G uniform =
     (let np = node_positions G
      in if np \<noteq> [] then
           (case compute_scale np of
              Inl e \<Rightarrow> Inl e
            | Inr p \<Rightarrow>
                (case nodes_loop p 0 np ([], Map.empty) of
                   Inl e \<Rightarrow> Inl e
                 | Inr (nodes_acc, node_id_map) \<Rightarrow>
                     Inr (Some p,
                          \<lparr>nodes = nodes_acc,
                           edges = edges_loop node_id_map uniform 0 (G_edges G) []\<rparr>)))
         else Inr (None, \<lparr>nodes = [], edges = []\<rparr>))"

text \<open>What the name \<open>scale\<close> is bound to when the run ends; \<open>None\<close> when it is
  unbound or the run was aborted.\<close>

definition bound_scale :: "py_error + (norm option \<times> graph_document) \<Rightarrow> real option" where
  "bound_scale r = (case r of Inl e \<Rightarrow> None | Inr (po, d) \<Rightarrow> map_option norm_scale po)"

text \<open>The two properties of a document that the scripts are to keep: every edge joins two
  nodes of the document, and every node lies in the drawing area
  \<open>[margin, svg_width - margin] \<times> [margin, svg_height - margin]\<close>.\<close>

definition no_dangling_edge :: "graph_document \<Rightarrow> bool" where
  "no_dangling_edge d =
     list_all (\<lambda>e. edge_from e \<in> set (map node_id (nodes d)) \<and>
                    edge_to e \<in> set (map node_id (nodes d))) (edges d)"


subsection \<open>Lines 43-88 in double arithmetic\<close>






















section \<open>Concrete inputs\<close>

text \<open>A graph without nodes (but with an edge, which the provider's graph type excludes and
  the script tolerates); a graph of two nodes with one edge between them and one edge to
  a node that does not exist; a random source that always returns 29/4.\<close>

definition G_empty :: raw_graph where
  "G_empty = \<lparr>G_nodes = [], G_edges = [(1, 2)]\<rparr>"

definition G_two :: raw_graph where
  "G_two =
     \<lparr>G_nodes = [(1, \<lparr>raw_x = Some 0, raw_y = Some 0\<rparr>),
                 (2, \<lparr>raw_x = Some 10, raw_y = Some 5\<rparr>)],
      G_edges = [(1, 2), (2, 3)]\<rparr>"

definition uniform_const :: "nat \<Rightarrow> real" where
  "uniform_const k = 29 / 4"

text \<open>A graph of one node without a \<open>y\<close> attribute, with a loop edge.\<close>

definition G_single :: raw_graph where
  "G_single = \<lparr>G_nodes = [(7, \<lparr>raw_x = Some 3, raw_y = None\<rparr>)], G_edges = [(7, 7)]\<rparr>"



text \<open>A graph of 703 nodes, none with coordinates, and no edge.\<close>

definition G_many :: raw_graph where
  "G_many = \<lparr>G_nodes = map (\<lambda>i. (int i, \<lparr>raw_x = None, raw_y = None\<rparr>)) [0..<703],
             G_edges = []\<rparr>"

text \<open>What the Fetcher makes of \<open>G_two\<close> and of \<open>G_single\<close> with that random source.\<close>

definition doc_two :: graph_document where
  "doc_two =
     \<lparr>nodes = [\<lparr>node_id = str_lit ''1'', node_x = 8333 / 100, node_y = 5417 / 100,
                node_label = str_lit ''A''\<rparr>,
               \<lparr>node_id = str_lit ''2'', node_x = 66667 / 100, node_y = 34583 / 100,
                node_label = str_lit ''B''\<rparr>],
      edges = [\<lparr>edge_from = str_lit ''1'', edge_to = str_lit ''2'', edge_weight = 36 / 5\<rparr>]\<rparr>"

definition norm_two :: norm where
  "norm_two = \<lparr>norm_min_x = - 1, norm_min_y = - (1 / 2), norm_scale_x = 175 / 3,
               norm_scale_y = 250 / 3, norm_scale = 175 / 3\<rparr>"

definition norm_single :: norm where
  "norm_single = \<lparr>norm_min_x = 3, norm_min_y = 0, norm_scale_x = 1, norm_scale_y = 1,
                  norm_scale = 1\<rparr>"

definition doc_single :: graph_document where
  "doc_single =
     \<lparr>nodes = [\<lparr>node_id = str_lit ''7'', node_x = 25, node_y = 25, node_label = str_lit ''A''\<rparr>],
      edges = [\<lparr>edge_from = str_lit ''7'', edge_to = str_lit ''7'', edge_weight = 36 / 5\<rparr>]\<rparr>"

text \<open>Three nodes of which one carries a reference id, the document the Filter makes of
  it, and a document without any reference id.\<close>

definition doc_partial :: graph_document where
  "doc_partial =
     \<lparr>nodes = [\<lparr>node_id = str_lit ''1'', node_x = 0, node_y = 0, node_label = str_lit ''A''\<rparr>,
               \<lparr>node_id = str_lit ''250691723'', node_x = 5, node_y = 0,
                node_label = str_lit ''B''\<rparr>,
               \<lparr>node_id = str_lit ''3'', node_x = 10, node_y = 0, node_label = str_lit ''C''\<rparr>],
      edges = [\<lparr>edge_from = str_lit ''1'', edge_to = str_lit ''250691723'', edge_weight = 7 / 2\<rparr>,
               \<lparr>edge_from = str_lit ''250691723'', edge_to = str_lit ''3'', edge_weight = 7\<rparr>]\<rparr>"

definition doc_filtered :: graph_document where
  "doc_filtered =
     \<lparr>nodes = [\<lparr>node_id = str_lit ''250691723'', node_x = 5, node_y = 0,
                node_label = str_lit ''B''\<rparr>,
               \<lparr>node_id = str_lit ''3'', node_x = 10, node_y = 0, node_label = str_lit ''C''\<rparr>],
      edges = [\<lparr>edge_from = str_lit ''250691723'', edge_to = str_lit ''3'', edge_weight = 7\<rparr>]\<rparr>"

definition doc_none :: graph_document where
  "doc_none =
     \<lparr>nodes = [\<lparr>node_id = str_lit ''1'', node_x = 0, node_y = 0, node_label = str_lit ''A''\<rparr>,
               \<lparr>node_id = str_lit ''3'', node_x = 10, node_y = 0, node_label = str_lit ''C''\<rparr>],
      edges = [\<lparr>edge_from = str_lit ''1'', edge_to = str_lit ''3'', edge_weight = 2\<rparr>]\<rparr>"

section \<open>Facts about the built-ins\<close>

lemma fold_min_eq: "fold (\<lambda>a m. if a < m then a else m) vs (v::real) = Min (set (v # vs))"
proof -
  have "(\<lambda>a m. if a < m then a else m) = (min :: real \<Rightarrow> real \<Rightarrow> real)"
    by (intro ext) (simp add: min_def)
  then show ?thesis
    by (simp only: Min.set_eq_fold)
qed

lemma py_min_Nil: "py_min [] = Inl ValueError"
  by (simp add: py_min_def)

lemma py_min_nonempty: "xs \<noteq> [] \<Longrightarrow> py_min xs = Inr (Min (set xs))"
  by (cases xs) (simp_all add: py_min_def fold_min_eq del: set_simps)

lemma fold_max_eq: "fold (\<lambda>a m. if a > m then a else m) vs (v::real) = Max (set (v # vs))"
proof -
  have "(\<lambda>a m. if a > m then a else m) = (max :: real \<Rightarrow> real \<Rightarrow> real)"
    by (intro ext) (simp add: max_def)
  then show ?thesis
    by (simp only: Max.set_eq_fold)
qed

lemma py_max_nonempty: "xs \<noteq> [] \<Longrightarrow> py_max xs = Inr (Max (set xs))"
  by (cases xs) (simp_all add: py_max_def fold_max_eq del: set_simps)

lemma round_half_even_ge_floor: "\<lfloor>v\<rfloor> \<le> round_half_even v"
  by (simp add: round_half_even_def Let_def)

lemma round_half_even_lower:
  assumes "of_int k \<le> v"
  shows "k \<le> round_half_even v"
proof -
  from assms have "k \<le> \<lfloor>v\<rfloor>" by (simp add: le_floor_iff)
  with round_half_even_ge_floor [of v] show ?thesis by linarith
qed

lemma round_half_even_upper:
  assumes "v \<le> of_int k"
  shows "round_half_even v \<le> k"
proof (cases "v - of_int \<lfloor>v\<rfloor> < 1 / 2")
  case True
  then have "round_half_even v = \<lfloor>v\<rfloor>"
    by (simp add: round_half_even_def Let_def)
  moreover from assms have "\<lfloor>v\<rfloor> \<le> k"
    by (simp add: floor_le_iff)
  ultimately show ?thesis by simp
next
  case False
  then have "of_int \<lfloor>v\<rfloor> < v" by linarith
  with assms have "of_int \<lfloor>v\<rfloor> < (of_int k :: real)" by linarith
  then have "\<lfloor>v\<rfloor> < k" by simp
  moreover have "round_half_even v \<le> \<lfloor>v\<rfloor> + 1"
    by (simp add: round_half_even_def Let_def)
  ultimately show ?thesis by linarith
qed

lemma py_round_lower:
  assumes "of_int k / 10 ^ n \<le> v"
  shows "of_int k / 10 ^ n \<le> py_round v n"
proof -
  from assms have "of_int k \<le> v * 10 ^ n"
    by (simp add: pos_divide_le_eq)
  then have "k \<le> round_half_even (v * 10 ^ n)"
    by (rule round_half_even_lower)
  then have "(of_int k :: real) \<le> of_int (round_half_even (v * 10 ^ n))"
    by simp
  then show ?thesis
    unfolding py_round_def by (simp add: divide_right_mono)
qed

lemma py_round_upper:
  assumes "v \<le> of_int k / 10 ^ n"
  shows "py_round v n \<le> of_int k / 10 ^ n"
proof -
  from assms have "v * 10 ^ n \<le> of_int k"
    by (simp add: pos_le_divide_eq)
  then have "round_half_even (v * 10 ^ n) \<le> k"
    by (rule round_half_even_upper)
  then have "(of_int (round_half_even (v * 10 ^ n)) :: real) \<le> of_int k"
    by simp
  then show ?thesis
    unfolding py_round_def by (simp add: divide_right_mono)
qed

lemma py_round_between:
  assumes "of_int a \<le> v" and "v \<le> of_int b"
  shows "of_int a \<le> py_round v n \<and> py_round v n \<le> of_int b"
proof -
  have a: "(of_int a :: real) = of_int (a * 10 ^ n) / 10 ^ n"
    and b: "(of_int b :: real) = of_int (b * 10 ^ n) / 10 ^ n"
    by simp_all
  from assms(1) have "of_int (a * 10 ^ n) / 10 ^ n \<le> v" by (simp only: a [symmetric])
  then have l: "of_int (a * 10 ^ n) / 10 ^ n \<le> py_round v n" by (rule py_round_lower)
  from assms(2) have "v \<le> of_int (b * 10 ^ n) / 10 ^ n" by (simp only: b [symmetric])
  then have u: "py_round v n \<le> of_int (b * 10 ^ n) / 10 ^ n" by (rule py_round_upper)
  from l u show ?thesis by (simp only: a [symmetric] b [symmetric])
qed

lemma py_round_decimal: "\<exists>k::int. py_round v n = of_int k / 10 ^ n"
  unfolding py_round_def by blast

section \<open>The Filter\<close>

lemmas filter_defs = filter_network_def ref_x_coords_def ref_nodes_def py_min_def
  nodes_to_keep_def edges_to_keep_def node_ids_to_keep_def str_lit_def

lemma ref_x_coords_eq_Nil:
  "ref_x_coords data = [] \<longleftrightarrow> (\<forall>n\<in>set (nodes data). node_id n \<notin> set ref_nodes)"
  by (auto simp: ref_x_coords_def filter_empty_conv)

lemma set_ref_x_coords:
  "set (ref_x_coords data) = {node_x n | n. n \<in> set (nodes data) \<and> node_id n \<in> set ref_nodes}"
  by (auto simp: ref_x_coords_def)

lemma filter_network_cases:
  "filter_network data =
     (if ref_x_coords data = [] then Inl ValueError
      else Inr (Min (set (ref_x_coords data)),
                \<lparr>nodes = nodes_to_keep (Min (set (ref_x_coords data))) data,
                 edges = edges_to_keep (Min (set (ref_x_coords data))) data\<rparr>))"
  by (simp add: filter_network_def py_min_Nil py_min_nonempty)

lemma filter_doc_partial: "filter_network doc_partial = Inr (5, doc_filtered)"
  by (simp add: filter_defs doc_partial_def doc_filtered_def)

lemma doc_partial_has_ref: "\<exists>n\<in>set (nodes doc_partial). node_id n \<in> set ref_nodes"
  by (simp add: doc_partial_def ref_nodes_def str_lit_def)

lemma doc_none_has_no_ref: "\<forall>n\<in>set (nodes doc_none). node_id n \<notin> set ref_nodes"
  by (simp add: doc_none_def ref_nodes_def str_lit_def)

lemma ref_nodes_kept:
  assumes "n \<in> set (nodes data)" "node_id n \<in> set ref_nodes"
  shows "Min (set (ref_x_coords data)) \<le> node_x n"
proof -
  from assms have "node_x n \<in> set (ref_x_coords data)"
    by (auto simp: ref_x_coords_def)
  then show ?thesis by simp
qed

lemma ref_x_coords_kept:
  "ref_x_coords \<lparr>nodes = nodes_to_keep (Min (set (ref_x_coords data))) data, edges = es\<rparr>
     = ref_x_coords data"
proof -
  have "filter (\<lambda>n. node_id n \<in> set ref_nodes)
          (filter (\<lambda>n. Min (set (ref_x_coords data)) \<le> node_x n) (nodes data))
        = filter (\<lambda>n. node_id n \<in> set ref_nodes) (nodes data)"
    unfolding filter_filter
    by (rule filter_cong) (auto dest: ref_nodes_kept)
  then show ?thesis
    by (simp add: ref_x_coords_def nodes_to_keep_def)
qed

lemma nodes_to_keep_idem:
  "nodes_to_keep m \<lparr>nodes = nodes_to_keep m data, edges = es\<rparr> = nodes_to_keep m data"
  by (simp add: nodes_to_keep_def)

lemma edges_to_keep_idem:
  "edges_to_keep m \<lparr>nodes = nodes_to_keep m data, edges = edges_to_keep m data\<rparr>
     = edges_to_keep m data"
  by (simp add: edges_to_keep_def node_ids_to_keep_def nodes_to_keep_idem)

lemma filter_network_idem:
  assumes "filter_network data = Inr (min_x, out)"
  shows "filter_network out = Inr (min_x, out)"
proof -
  from assms have ne: "ref_x_coords data \<noteq> []"
    and m: "min_x = Min (set (ref_x_coords data))"
    and out: "out = \<lparr>nodes = nodes_to_keep min_x data, edges = edges_to_keep min_x data\<rparr>"
    by (auto simp: filter_network_cases split: if_splits)
  have "ref_x_coords out = ref_x_coords data"
    unfolding out m by (rule ref_x_coords_kept)
  with ne m show ?thesis
    by (simp add: filter_network_cases) (simp add: out nodes_to_keep_idem edges_to_keep_idem)
qed

lemma filter_script_eq:
  "filter_script w =
     (case json_file w of
        None \<Rightarrow> (Some FileNotFoundError, w)
      | Some data \<Rightarrow>
          (case filter_network data of
             Inl e \<Rightarrow> (Some e, w)
           | Inr (min_x, out) \<Rightarrow>
               (None, \<lparr>json_file = Some out,
                       stdout = stdout w @
                         [MinimumX min_x,
                          Original (length (nodes data)) (length (edges data)),
                          Filtered (length (nodes out)) (length (edges out)),
                          Saved]\<rparr>)))"
  by (simp add: filter_script_def filter_network_def print_line_def Let_def
           split: option.splits sum.splits)

text \<open>
  C1. When some node of the input carries one of the ten reference ids, the Filter
  succeeds; its threshold \<open>min_x\<close> is the least x-coordinate among the nodes whose id is
  in the reference list; the output node list is the input node list restricted to the
  nodes with \<open>x \<ge> min_x\<close>, in the input's order; so every output node has
  \<open>x \<ge> min_x\<close>.
\<close>

theorem filter_threshold_and_nodes:
  assumes "\<exists>n\<in>set (nodes data). node_id n \<in> set ref_nodes"
  shows "\<exists>min_x out. filter_network data = Inr (min_x, out)
           \<and> min_x = Min {node_x n | n. n \<in> set (nodes data) \<and> node_id n \<in> set ref_nodes}
           \<and> nodes out = filter (\<lambda>n. node_x n \<ge> min_x) (nodes data)
           \<and> (\<forall>n\<in>set (nodes out). node_x n \<ge> min_x)"
proof -
  from assms have ne: "ref_x_coords data \<noteq> []"
    by (simp add: ref_x_coords_eq_Nil)
  show ?thesis
    using ne by (simp add: filter_network_cases set_ref_x_coords nodes_to_keep_def)
qed

theorem filter_threshold_and_nodes_witness:
  "(\<exists>n\<in>set (nodes doc_partial). node_id n \<in> set ref_nodes) \<and>
   filter_network doc_partial = Inr (5, doc_filtered) \<and>
   Min {node_x n | n. n \<in> set (nodes doc_partial) \<and> node_id n \<in> set ref_nodes} = 5 \<and>
   nodes doc_filtered = filter (\<lambda>n. node_x n \<ge> 5) (nodes doc_partial) \<and>
   map node_x (nodes doc_filtered) = [5, 10]"
proof -
  from filter_threshold_and_nodes [OF doc_partial_has_ref]
  obtain min_x out where f: "filter_network doc_partial = Inr (min_x, out)"
    and m: "min_x = Min {node_x n | n. n \<in> set (nodes doc_partial) \<and> node_id n \<in> set ref_nodes}"
    and k: "nodes out = filter (\<lambda>n. node_x n \<ge> min_x) (nodes doc_partial)"
    and a: "\<forall>n\<in>set (nodes out). node_x n \<ge> min_x"
    by blast
  from f have e: "min_x = 5" "out = doc_filtered"
    by (simp_all add: filter_doc_partial)
  have x: "map node_x (nodes doc_filtered) = [5, 10]"
    by (simp add: doc_filtered_def)
  from m k a x show ?thesis
    unfolding e using doc_partial_has_ref filter_doc_partial by simp
qed

text \<open>
  C2. When a run of the Filter succeeds, the file then holds a document on which the
  Filter succeeds again with the same threshold and which it maps to itself: a second
  run writes the same document.
\<close>

theorem filter_idempotent:
  assumes "filter_script w = (None, w1)"
  shows "\<exists>data min_x out.
           json_file w = Some data \<and> filter_network data = Inr (min_x, out) \<and>
           json_file w1 = Some out \<and> filter_network out = Inr (min_x, out) \<and>
           fst (filter_script w1) = None \<and> json_file (snd (filter_script w1)) = Some out"
proof -
  from assms obtain data min_x out where
    d: "json_file w = Some data" and f: "filter_network data = Inr (min_x, out)"
    and w1: "json_file w1 = Some out"
    by (auto simp: filter_script_eq split: option.splits sum.splits)
  from f have f2: "filter_network out = Inr (min_x, out)"
    by (rule filter_network_idem)
  from w1 f2 have "fst (filter_script w1) = None \<and> json_file (snd (filter_script w1)) = Some out"
    by (simp add: filter_script_eq)
  with d f w1 f2 show ?thesis by blast
qed

theorem filter_idempotent_witness:
  "filter_script \<lparr>json_file = Some doc_partial, stdout = []\<rparr> =
     (None, \<lparr>json_file = Some doc_filtered,
             stdout = [MinimumX 5, Original 3 2, Filtered 2 1, Saved]\<rparr>) \<and>
   filter_network doc_filtered = Inr (5, doc_filtered) \<and>
   json_file (snd (filter_script \<lparr>json_file = Some doc_filtered,
             stdout = [MinimumX 5, Original 3 2, Filtered 2 1, Saved]\<rparr>)) = Some doc_filtered"
proof -
  have h: "filter_script \<lparr>json_file = Some doc_partial, stdout = []\<rparr> =
     (None, \<lparr>json_file = Some doc_filtered,
             stdout = [MinimumX 5, Original 3 2, Filtered 2 1, Saved]\<rparr>)"
    by (simp add: filter_script_eq filter_doc_partial) (simp add: doc_partial_def doc_filtered_def)
  from filter_idempotent [OF h] h show ?thesis
    by (auto simp: filter_doc_partial)
qed

text \<open>
  C3, as stated: whenever some reference id is absent from the node set, the Filter
  fails. It does not: in \<open>doc_partial\<close> the reference id 3339821648 is absent (as are
  eight others), and the Filter succeeds with the threshold of the one reference node
  that is present.
\<close>

theorem filter_absent_ref_counterexample:
  "str_lit ''3339821648'' \<in> set ref_nodes \<and>
   str_lit ''3339821648'' \<notin> node_id ` set (nodes doc_partial) \<and>
   filter_network doc_partial = Inr (5, doc_filtered)"
  by (simp add: filter_doc_partial) (simp add: ref_nodes_def doc_partial_def str_lit_def)

text \<open>
  C3, amended. The Filter fails exactly when no reference id at all occurs in the node
  set (the minimum of an empty sequence is a \<open>ValueError\<close>). A reference id that is
  absent while another one is present is skipped: the Filter succeeds, with the minimum
  over the reference nodes that were found as threshold.
\<close>

theorem filter_fails_iff_no_ref_present:
  "((\<exists>e. filter_network data = Inl e) \<longleftrightarrow>
      (\<forall>n\<in>set (nodes data). node_id n \<notin> set ref_nodes)) \<and>
   ((\<forall>n\<in>set (nodes data). node_id n \<notin> set ref_nodes) \<longrightarrow>
      filter_network data = Inl ValueError) \<and>
   ((\<exists>n\<in>set (nodes data). node_id n \<in> set ref_nodes) \<longrightarrow>
      (\<exists>out. filter_network data = Inr (Min (set (ref_x_coords data)), out)))"
  by (simp add: filter_network_cases ref_x_coords_eq_Nil)

theorem filter_fails_iff_no_ref_present_witness:
  "filter (\<lambda>n. node_id n \<in> set ref_nodes) (nodes doc_none) = [] \<and>
   filter_network doc_none = Inl ValueError \<and>
   (\<exists>n\<in>set (nodes doc_partial). node_id n \<in> set ref_nodes) \<and>
   (\<exists>out. filter_network doc_partial = Inr (Min (set (ref_x_coords doc_partial)), out))"
  using filter_fails_iff_no_ref_present [of doc_none]
    filter_fails_iff_no_ref_present [of doc_partial]
    doc_none_has_no_ref doc_partial_has_ref
  by (simp add: filter_empty_conv)

text \<open>
  C6. When the Filter succeeds, an edge of the input is in the output exactly when its
  \<open>from\<close> id and its \<open>to\<close> id are both ids of nodes in the output node list.
\<close>

theorem filter_edge_survives_iff:
  assumes "filter_network data = Inr (min_x, out)" and "e \<in> set (edges data)"
  shows "e \<in> set (edges out) \<longleftrightarrow>
           edge_from e \<in> node_id ` set (nodes out) \<and> edge_to e \<in> node_id ` set (nodes out)"
  using assms
  by (auto simp: filter_network_cases edges_to_keep_def node_ids_to_keep_def split: if_splits)

theorem filter_edge_survives_iff_witness:
  "filter_network doc_partial = Inr (5, doc_filtered) \<and>
   edges doc_partial ! 0 \<in> set (edges doc_partial) \<and>
   edges doc_partial ! 1 \<in> set (edges doc_partial) \<and>
   edges doc_partial ! 0 \<notin> set (edges doc_filtered) \<and>
   edge_from (edges doc_partial ! 0) \<notin> node_id ` set (nodes doc_filtered) \<and>
   edges doc_partial ! 1 \<in> set (edges doc_filtered) \<and>
   edge_from (edges doc_partial ! 1) \<in> node_id ` set (nodes doc_filtered) \<and>
   edge_to (edges doc_partial ! 1) \<in> node_id ` set (nodes doc_filtered)"
proof -
  have m0: "edges doc_partial ! 0 \<in> set (edges doc_partial)"
    and m1: "edges doc_partial ! 1 \<in> set (edges doc_partial)"
    by (simp_all add: doc_partial_def)
  have n0: "edge_from (edges doc_partial ! 0) \<notin> node_id ` set (nodes doc_filtered)"
    by (simp add: doc_partial_def doc_filtered_def str_lit_def)
  have i1: "edges doc_partial ! 1 \<in> set (edges doc_filtered)"
    by (simp add: doc_partial_def doc_filtered_def)
  from filter_edge_survives_iff [OF filter_doc_partial m0]
    filter_edge_survives_iff [OF filter_doc_partial m1] m0 m1 n0 i1
  show ?thesis by (simp add: filter_doc_partial)
qed

text \<open>
  C9. When no node of the file's document carries a reference id, the run ends with the
  \<open>ValueError\<close> of \<open>min\<close> on an empty sequence, raised before anything is printed or
  written: the file and the output are as they were.
\<close>

theorem filter_fails_without_refs:
  assumes "json_file w = Some data"
    and "\<forall>n\<in>set (nodes data). node_id n \<notin> set ref_nodes"
  shows "filter_script w = (Some ValueError, w)"
  using assms
  by (simp add: filter_script_def py_min_Nil ref_x_coords_eq_Nil [symmetric])

theorem filter_fails_without_refs_witness:
  "filter (\<lambda>n. node_id n \<in> set ref_nodes) (nodes doc_none) = [] \<and>
   filter_script \<lparr>json_file = Some doc_none, stdout = []\<rparr>
     = (Some ValueError, \<lparr>json_file = Some doc_none, stdout = []\<rparr>)"
proof -
  have f: "json_file \<lparr>json_file = Some doc_none, stdout = []\<rparr> = Some doc_none"
    by simp
  from filter_fails_without_refs [OF f doc_none_has_no_ref] doc_none_has_no_ref
  show ?thesis by (simp add: filter_empty_conv)
qed

section \<open>The Fetcher\<close>

subsection \<open>Bounding box and scale\<close>

lemma guarded_truediv:
  "(if b > 0 then py_truediv a b else Inr 1) = Inr (if b > 0 then a / b else 1)"
  by (simp add: py_truediv_def)

text \<open>The normalization of a non-empty dict of positions, in closed form.\<close>

lemma compute_scale_nonempty:
  assumes "np \<noteq> []"
  shows "compute_scale np =
     (let X = set (map (\<lambda>(nid, pos). fst pos) np);
          Y = set (map (\<lambda>(nid, pos). snd pos) np);
          rx = Max X - Min X;
          ry = Max Y - Min Y;
          sx = (if rx > 0 then 700 / (rx * (6 / 5)) else 1);
          sy = (if ry > 0 then 500 / (ry * (6 / 5)) else 1)
      in Inr \<lparr>norm_min_x = Min X - rx / 10, norm_min_y = Min Y - ry / 10,
              norm_scale_x = sx, norm_scale_y = sy, norm_scale = min sx sy\<rparr>)"
proof -
  define X where "X = set (map (\<lambda>(nid, pos). fst pos) np)"
  define Y where "Y = set (map (\<lambda>(nid, pos). snd pos) np)"
  define rx where "rx = Max X - Min X"
  define ry where "ry = Max Y - Min Y"
  have px: "Max X + rx * padding - (Min X - rx * padding) = rx * (6 / 5)"
    unfolding rx_def padding_def by algebra
  have py: "Max Y + ry * padding - (Min Y - ry * padding) = ry * (6 / 5)"
    unfolding ry_def padding_def by algebra
  have c: "svg_width - 2 * margin = 700" "svg_height - 2 * margin = 500"
    by (simp_all add: svg_width_def svg_height_def margin_def)
  have m: "\<And>a b::real. (if b < a then b else a) = min a b"
    by (simp add: min_def)
  from assms have ne: "map (\<lambda>(nid, pos). fst pos) np \<noteq> []" "map (\<lambda>(nid, pos). snd pos) np \<noteq> []"
    by simp_all
  show ?thesis
    unfolding compute_scale_def Let_def py_min_nonempty [OF ne(1)] py_max_nonempty [OF ne(1)]
      py_min_nonempty [OF ne(2)] py_max_nonempty [OF ne(2)] sum.case
      X_def [symmetric] Y_def [symmetric] rx_def [symmetric] ry_def [symmetric]
      px py c guarded_truediv m
    by (simp add: padding_def)
qed




lemma nodes_loop_Inr:
  assumes "nodes_loop p idx np (ns, m) = Inr (ns', m')"
  shows "map node_id ns' = map node_id ns @ map (\<lambda>(nid, x, y). str_int nid) np \<and>
         map node_x ns' = map node_x ns @
           map (\<lambda>(nid, x, y). py_round (margin + (x - norm_min_x p) * norm_scale p) 2) np \<and>
         map node_y ns' = map node_y ns @
           map (\<lambda>(nid, x, y). py_round (margin + (y - norm_min_y p) * norm_scale p) 2) np \<and>
         m' = (\<lambda>k. if k \<in> fst ` set np then Some (str_int k) else m k)"
  using assms
proof (induction np arbitrary: idx ns m)
  case Nil
  then show ?case by simp
next
  case (Cons a np)
  obtain nid x y where a: "a = (nid, x, y)" by (cases a)
  from Cons.prems obtain l where l: "label idx = Inr l"
    and rest: "nodes_loop p (idx + 1) np
                 (ns @ [\<lparr>node_id = str_int nid,
                          node_x = py_round (margin + (x - norm_min_x p) * norm_scale p) 2,
                          node_y = py_round (margin + (y - norm_min_y p) * norm_scale p) 2,
                          node_label = l\<rparr>],
                  m(nid \<mapsto> str_int nid)) = Inr (ns', m')"
    unfolding a by (auto simp: Let_def split: sum.splits)
  from Cons.IH [OF rest] show ?case
    unfolding a by (auto simp: fun_eq_iff)
qed


subsection \<open>The two loops and the whole script\<close>

lemma label_Inl: "label idx = Inl e \<Longrightarrow> e = ValueError \<or> e = OverflowError"
  by (auto simp: label_def py_chr_def split: if_splits sum.splits)

lemma nodes_loop_Inl:
  "nodes_loop p idx np st = Inl e \<Longrightarrow> e = ValueError \<or> e = OverflowError"
proof (induction np arbitrary: idx st)
  case Nil
  then show ?case by simp
next
  case (Cons a np)
  obtain nid x y where a: "a = (nid, x, y)" by (cases a)
  obtain ns m where st: "st = (ns, m)" by (cases st)
  from Cons.prems show ?case
    unfolding a st by (auto simp: Let_def split: sum.splits dest: label_Inl Cons.IH)
qed

lemma edges_loop_mem:
  assumes "e \<in> set (edges_loop m uniform k es acc)"
  shows "e \<in> set acc \<or>
         (\<exists>u v j. (u, v) \<in> set es \<and> m u = Some (edge_from e) \<and> m v = Some (edge_to e) \<and>
                  edge_weight e = py_round (uniform j) 1)"
  using assms
proof (induction es arbitrary: k acc)
  case Nil
  then show ?case by simp
next
  case (Cons a es)
  obtain u v where a: "a = (u, v)" by (cases a)
  show ?case
  proof (cases "m u")
    case None
    with Cons.prems have "e \<in> set (edges_loop m uniform k es acc)"
      unfolding a by simp
    from Cons.IH [OF this] show ?thesis by auto
  next
    case (Some from_id)
    note mu = this
    show ?thesis
    proof (cases "m v")
      case None
      with mu Cons.prems have "e \<in> set (edges_loop m uniform k es acc)"
        unfolding a by simp
      from Cons.IH [OF this] show ?thesis by auto
    next
      case (Some to_id)
      with mu Cons.prems have
        "e \<in> set (edges_loop m uniform (k + 1) es
                   (acc @ [\<lparr>edge_from = from_id, edge_to = to_id,
                             edge_weight = py_round (uniform k) 1\<rparr>]))"
        unfolding a by (simp add: Let_def)
      from Cons.IH [OF this] consider
          (old) "e \<in> set acc"
        | (new) "e = \<lparr>edge_from = from_id, edge_to = to_id,
                       edge_weight = py_round (uniform k) 1\<rparr>"
        | (rest) "\<exists>u v j. (u, v) \<in> set es \<and> m u = Some (edge_from e) \<and>
                    m v = Some (edge_to e) \<and> edge_weight e = py_round (uniform j) 1"
        by auto
      then show ?thesis
      proof cases
        case old
        then show ?thesis by simp
      next
        case new
        with mu Some show ?thesis
          unfolding a by (intro disjI2 exI [of _ u] exI [of _ v] exI [of _ k]) simp
      next
        case rest
        then show ?thesis by auto
      qed
    qed
  qed
qed

lemma node_positions_Nil: "G_nodes G = [] \<Longrightarrow> node_positions G = []"
  by (simp add: node_positions_def)

lemma generate_network_empty:
  "node_positions G = [] \<Longrightarrow> generate_network G uniform = Inr (None, \<lparr>nodes = [], edges = []\<rparr>)"
  by (simp add: generate_network_def)

lemma generate_network_nonempty:
  assumes "node_positions G \<noteq> []"
  shows "\<exists>p. compute_scale (node_positions G) = Inr p \<and>
           generate_network G uniform =
             (case nodes_loop p 0 (node_positions G) ([], Map.empty) of
                Inl e \<Rightarrow> Inl e
              | Inr (ns, m) \<Rightarrow>
                  Inr (Some p, \<lparr>nodes = ns, edges = edges_loop m uniform 0 (G_edges G) []\<rparr>))"
proof -
  from compute_scale_nonempty [OF assms] obtain p where
    p: "compute_scale (node_positions G) = Inr p"
    by (auto simp: Let_def)
  with assms show ?thesis
    by (simp add: generate_network_def Let_def)
qed

lemma generate_network_Inr:
  assumes "generate_network G uniform = Inr (po, d)"
  shows "(node_positions G = [] \<and> po = None \<and> d = \<lparr>nodes = [], edges = []\<rparr>) \<or>
         (\<exists>p ns m. node_positions G \<noteq> [] \<and> po = Some p \<and>
            compute_scale (node_positions G) = Inr p \<and>
            nodes_loop p 0 (node_positions G) ([], Map.empty) = Inr (ns, m) \<and>
            d = \<lparr>nodes = ns, edges = edges_loop m uniform 0 (G_edges G) []\<rparr>)"
proof (cases "node_positions G = []")
  case True
  with assms show ?thesis by (simp add: generate_network_empty)
next
  case False
  from generate_network_nonempty [OF False, of uniform] obtain p where
    p: "compute_scale (node_positions G) = Inr p"
    and g: "generate_network G uniform =
             (case nodes_loop p 0 (node_positions G) ([], Map.empty) of
                Inl e \<Rightarrow> Inl e
              | Inr (ns, m) \<Rightarrow>
                  Inr (Some p, \<lparr>nodes = ns, edges = edges_loop m uniform 0 (G_edges G) []\<rparr>))"
    by blast
  show ?thesis
  proof (cases "nodes_loop p 0 (node_positions G) ([], Map.empty)")
    case (Inl e)
    with g assms show ?thesis by simp
  next
    case (Inr r)
    obtain ns m where r: "r = (ns, m)" by (cases r)
    from g assms Inr have "po = Some p"
      and "d = \<lparr>nodes = ns, edges = edges_loop m uniform 0 (G_edges G) []\<rparr>"
      unfolding r by simp_all
    with False p Inr show ?thesis
      unfolding r by blast
  qed
qed

lemma generate_network_no_zero_division:
  "generate_network G uniform \<noteq> Inl ZeroDivisionError"
proof (cases "node_positions G = []")
  case True
  then show ?thesis by (simp add: generate_network_empty)
next
  case False
  from generate_network_nonempty [OF False, of uniform] obtain p where
    g: "generate_network G uniform =
             (case nodes_loop p 0 (node_positions G) ([], Map.empty) of
                Inl e \<Rightarrow> Inl e
              | Inr (ns, m) \<Rightarrow>
                  Inr (Some p, \<lparr>nodes = ns, edges = edges_loop m uniform 0 (G_edges G) []\<rparr>))"
    by blast
  show ?thesis
  proof (cases "nodes_loop p 0 (node_positions G) ([], Map.empty)")
    case (Inl e)
    from nodes_loop_Inl [OF Inl] have "e \<noteq> ZeroDivisionError" by auto
    with g Inl show ?thesis by simp
  next
    case (Inr r)
    with g show ?thesis by (simp split: prod.splits)
  qed
qed

subsection \<open>The script on the concrete graphs\<close>

lemma generate_G_empty:
  "generate_network G_empty uniform_const = Inr (None, \<lparr>nodes = [], edges = []\<rparr>)"
  by (simp add: generate_network_def node_positions_def G_empty_def)

lemma node_positions_G_two: "node_positions G_two = [(1, 0, 0), (2, 10, 5)]"
  by (simp add: node_positions_def G_two_def dict_get_def)

lemma compute_scale_G_two:
  "compute_scale [(1, 0, 0), (2, 10, 5)] =
     Inr \<lparr>norm_min_x = - 1, norm_min_y = - (1 / 2), norm_scale_x = 175 / 3,
          norm_scale_y = 250 / 3, norm_scale = 175 / 3\<rparr>"
  by (simp add: compute_scale_def py_min_def py_max_def py_truediv_def padding_def
        svg_width_def svg_height_def margin_def Let_def)

lemma nodes_loop_G_two:
  "nodes_loop norm_two 0 [(1, 0, 0), (2, 10, 5)] ([], Map.empty) =
     Inr (nodes doc_two, [1 \<mapsto> [49], 2 \<mapsto> [50]])"
  by (simp add: norm_two_def doc_two_def margin_def Let_def label_def py_chr_def str_int_def
        str_nat.simps py_round_def round_half_even_def str_lit_def)

lemma edges_loop_G_two:
  "edges_loop [1 \<mapsto> [49], 2 \<mapsto> [50]] uniform_const 0 [(1, 2), (2, 3)] [] = edges doc_two"
  by (simp add: doc_two_def uniform_const_def py_round_def round_half_even_def Let_def
        str_lit_def)

lemma generate_G_two: "generate_network G_two uniform_const = Inr (Some norm_two, doc_two)"
proof -
  have ne: "node_positions G_two \<noteq> []"
    by (simp add: node_positions_G_two)
  from generate_network_nonempty [OF ne, of uniform_const] obtain p where
    p: "compute_scale (node_positions G_two) = Inr p"
    and g: "generate_network G_two uniform_const =
             (case nodes_loop p 0 (node_positions G_two) ([], Map.empty) of
                Inl e \<Rightarrow> Inl e
              | Inr (ns, m) \<Rightarrow>
                  Inr (Some p, \<lparr>nodes = ns,
                                edges = edges_loop m uniform_const 0 (G_edges G_two) []\<rparr>))"
    by blast
  from p have e: "p = norm_two"
    unfolding node_positions_G_two compute_scale_G_two norm_two_def by simp
  have ge: "G_edges G_two = [(1, 2), (2, 3)]"
    by (simp add: G_two_def)
  show ?thesis
    unfolding g e node_positions_G_two nodes_loop_G_two ge sum.case prod.case edges_loop_G_two
    by simp
qed


lemma node_positions_G_single: "node_positions G_single = [(7, 3, 0)]"
  by (simp add: node_positions_def G_single_def dict_get_def)

lemma compute_scale_G_single: "compute_scale [(7, 3, 0)] = Inr norm_single"
  by (simp add: compute_scale_def py_min_def py_max_def py_truediv_def padding_def
        svg_width_def svg_height_def margin_def Let_def norm_single_def)

lemma nodes_loop_G_single:
  "nodes_loop norm_single 0 [(7, 3, 0)] ([], Map.empty) = Inr (nodes doc_single, [7 \<mapsto> [55]])"
  by (simp add: norm_single_def doc_single_def margin_def Let_def label_def py_chr_def
        str_int_def str_nat.simps py_round_def round_half_even_def str_lit_def)

lemma edges_loop_G_single:
  "edges_loop [7 \<mapsto> [55]] uniform_const 0 [(7, 7)] [] = edges doc_single"
  by (simp add: doc_single_def uniform_const_def py_round_def round_half_even_def Let_def
        str_lit_def)

lemma generate_G_single:
  "generate_network G_single uniform_const = Inr (Some norm_single, doc_single)"
proof -
  have ne: "node_positions G_single \<noteq> []"
    by (simp add: node_positions_G_single)
  from generate_network_nonempty [OF ne, of uniform_const] obtain p where
    p: "compute_scale (node_positions G_single) = Inr p"
    and g: "generate_network G_single uniform_const =
             (case nodes_loop p 0 (node_positions G_single) ([], Map.empty) of
                Inl e \<Rightarrow> Inl e
              | Inr (ns, m) \<Rightarrow>
                  Inr (Some p, \<lparr>nodes = ns,
                                edges = edges_loop m uniform_const 0 (G_edges G_single) []\<rparr>))"
    by blast
  from p have e: "p = norm_single"
    unfolding node_positions_G_single compute_scale_G_single by simp
  have ge: "G_edges G_single = [(7, 7)]"
    by (simp add: G_single_def)
  show ?thesis
    unfolding g e node_positions_G_single nodes_loop_G_single ge sum.case prod.case
      edges_loop_G_single
    by simp
qed

lemma zero_range:
  fixes X :: "real set"
  assumes "finite X" and "X \<noteq> {}" and "\<forall>a\<in>X. \<forall>b\<in>X. a = b"
  shows "\<not> Max X - Min X > 0"
proof -
  from assms(1,2) have "Max X \<in> X" "Min X \<in> X"
    by simp_all
  with assms(3) have "Max X = Min X" by blast
  then show ?thesis by simp
qed

lemma compute_scale_fallback:
  assumes cs: "compute_scale np = Inr p" and ne: "np \<noteq> []"
  shows "(\<forall>a\<in>set np. \<forall>b\<in>set np. fst (snd a) = fst (snd b)) \<longrightarrow> norm_scale_x p = 1"
    and "(\<forall>a\<in>set np. \<forall>b\<in>set np. snd (snd a) = snd (snd b)) \<longrightarrow> norm_scale_y p = 1"
proof -
  define X where "X = set (map (\<lambda>(nid, pos). fst pos) np)"
  define Y where "Y = set (map (\<lambda>(nid, pos). snd pos) np)"
  define sx where "sx = (if Max X - Min X > 0 then 700 / ((Max X - Min X) * (6 / 5)) else (1::real))"
  define sy where "sy = (if Max Y - Min Y > 0 then 500 / ((Max Y - Min Y) * (6 / 5)) else (1::real))"
  from ne have fin: "finite X" "X \<noteq> {}" "finite Y" "Y \<noteq> {}"
    unfolding X_def Y_def by simp_all
  have Xi: "X = (\<lambda>t. fst (snd t)) ` set np" and Yi: "Y = (\<lambda>t. snd (snd t)) ` set np"
    unfolding X_def Y_def by (simp_all add: case_prod_unfold)
  from cs have p: "p = \<lparr>norm_min_x = Min X - (Max X - Min X) / 10,
                         norm_min_y = Min Y - (Max Y - Min Y) / 10,
                         norm_scale_x = sx, norm_scale_y = sy, norm_scale = min sx sy\<rparr>"
    unfolding compute_scale_nonempty [OF ne] Let_def X_def Y_def sx_def sy_def by simp
  show "(\<forall>a\<in>set np. \<forall>b\<in>set np. fst (snd a) = fst (snd b)) \<longrightarrow> norm_scale_x p = 1"
  proof
    assume "\<forall>a\<in>set np. \<forall>b\<in>set np. fst (snd a) = fst (snd b)"
    then have "\<forall>a\<in>X. \<forall>b\<in>X. a = b"
      unfolding Xi by blast
    from zero_range [OF fin(1,2) this] have "sx = 1"
      unfolding sx_def by simp
    then show "norm_scale_x p = 1"
      unfolding p by simp
  qed
  show "(\<forall>a\<in>set np. \<forall>b\<in>set np. snd (snd a) = snd (snd b)) \<longrightarrow> norm_scale_y p = 1"
  proof
    assume "\<forall>a\<in>set np. \<forall>b\<in>set np. snd (snd a) = snd (snd b)"
    then have "\<forall>a\<in>Y. \<forall>b\<in>Y. a = b"
      unfolding Yi by blast
    from zero_range [OF fin(3,4) this] have "sy = 1"
      unfolding sy_def by simp
    then show "norm_scale_y p = 1"
      unfolding p by simp
  qed
qed

subsection \<open>Labels\<close>

lemma label_small: "idx < 26 \<Longrightarrow> label idx = Inr [65 + idx]"
  by (simp add: label_def py_chr_def nat_add_distrib)


lemma py_chr_nat: "n < 1114112 \<Longrightarrow> py_chr (int n) = Inr n"
  by (simp add: py_chr_def)

lemma label_two:
  assumes "26 \<le> idx" and "idx < 702"
  shows "label idx = Inr [65 + (idx div 26 - 1), 65 + idx mod 26]"
proof -
  define q where "q = idx div 26"
  define r where "r = idx mod 26"
  from assms have q: "1 \<le> q" "q \<le> 26"
    unfolding q_def by arith+
  have r: "r < 26"
    unfolding r_def by simp
  have iq: "int idx div 26 = int q"
    by (simp add: q_def zdiv_int)
  have ir: "int idx mod 26 = int r"
    by (simp add: r_def zmod_int)
  from q have e1: "65 + (int q - 1) = int (65 + (q - 1))"
    by simp
  have e2: "65 + int r = int (65 + r)"
    by simp
  from q have c1: "py_chr (65 + (int q - 1)) = Inr (65 + (q - 1))"
    unfolding e1 by (intro py_chr_nat) simp
  from r have c2: "py_chr (65 + int r) = Inr (65 + r)"
    unfolding e2 by (intro py_chr_nat) simp
  from assms have ge: "\<not> idx < 26" by simp
  have "label idx =
          (case py_chr (65 + (int q - 1)) of
             Inl e \<Rightarrow> Inl e
           | Inr c1 \<Rightarrow>
               (case py_chr (65 + int r) of Inl e \<Rightarrow> Inl e | Inr c2 \<Rightarrow> Inr ([c1] @ [c2])))"
    unfolding label_def iq ir by (simp only: ge if_False)
  also have "\<dots> = Inr [65 + (q - 1), 65 + r]"
    unfolding c1 c2 by simp
  finally show ?thesis
    unfolding q_def r_def .
qed

lemma label_702: "label 702 = Inr [91, 65]"
  by (simp add: label_def py_chr_def)

subsection \<open>The run completes\<close>

text \<open>The only exception the script can raise on a graph is that of \<open>chr\<close>, for
  an index whose first letter would lie beyond the last code point. Below that many
  nodes the run completes.\<close>

lemma label_succeeds:
  assumes "idx < 28965248"
  shows "\<exists>l. label idx = Inr l"
proof (cases "idx < 26")
  case True
  then show ?thesis by (simp add: label_small)
next
  case False
  define q where "q = idx div 26"
  define r where "r = idx mod 26"
  from assms False have q: "1 \<le> q" "q \<le> 1114047"
    unfolding q_def by arith+
  have r: "r < 26"
    unfolding r_def by simp
  have iq: "int idx div 26 = int q"
    by (simp add: q_def zdiv_int)
  have ir: "int idx mod 26 = int r"
    by (simp add: r_def zmod_int)
  from q have e1: "65 + (int q - 1) = int (65 + (q - 1))"
    by simp
  have e2: "65 + int r = int (65 + r)"
    by simp
  from q have c1: "py_chr (65 + (int q - 1)) = Inr (65 + (q - 1))"
    unfolding e1 by (intro py_chr_nat) simp
  from r have c2: "py_chr (65 + int r) = Inr (65 + r)"
    unfolding e2 by (intro py_chr_nat) simp
  have "label idx =
          (case py_chr (65 + (int q - 1)) of
             Inl e \<Rightarrow> Inl e
           | Inr c1 \<Rightarrow>
               (case py_chr (65 + int r) of Inl e \<Rightarrow> Inl e | Inr c2 \<Rightarrow> Inr ([c1] @ [c2])))"
    unfolding label_def iq ir by (simp only: False if_False)
  then show ?thesis
    unfolding c1 c2 by simp
qed

lemma nodes_loop_succeeds:
  assumes "idx + length np \<le> 28965248"
  shows "\<exists>r. nodes_loop p idx np st = Inr r"
  using assms
proof (induction np arbitrary: idx st)
  case Nil
  then show ?case by simp
next
  case (Cons a np)
  obtain nid x y where a: "a = (nid, x, y)" by (cases a)
  obtain ns m where st: "st = (ns, m)" by (cases st)
  from Cons.prems have "idx < 28965248" by simp
  from label_succeeds [OF this] obtain l where l: "label idx = Inr l" ..
  from Cons.prems have "(idx + 1) + length np \<le> 28965248" by simp
  from Cons.IH [OF this] show ?case
    unfolding a st by (simp add: l Let_def)
qed

lemma length_update_le: "length (AList.update k v al) \<le> Suc (length al)"
  by (induction al) simp_all

lemma length_node_positions: "length (node_positions G) \<le> length (G_nodes G)"
proof -
  have "length (fold (\<lambda>(nid, data) np.
             AList.update nid (dict_get (raw_x data) 0, dict_get (raw_y data) 0) np) xs acc)
          \<le> length acc + length xs" for xs :: "(int \<times> raw_node_data) list" and acc
  proof (induction xs arbitrary: acc)
    case Nil
    show ?case by simp
  next
    case (Cons a xs)
    obtain nid data where a: "a = (nid, data)" by (cases a)
    have "length (AList.update nid (dict_get (raw_x data) 0, dict_get (raw_y data) 0) acc)
            \<le> Suc (length acc)"
      by (rule length_update_le)
    with Cons.IH [of "AList.update nid (dict_get (raw_x data) 0, dict_get (raw_y data) 0) acc"]
    show ?case
      unfolding a by simp
  qed
  from this [of "G_nodes G" "[]"] show ?thesis
    by (simp add: node_positions_def)
qed

lemma generate_network_completes:
  assumes "length (G_nodes G) \<le> 28965248"
  shows "\<exists>po d. generate_network G uniform = Inr (po, d)"
proof (cases "node_positions G = []")
  case True
  then show ?thesis by (simp add: generate_network_empty)
next
  case False
  from generate_network_nonempty [OF False, of uniform] obtain p where
    g: "generate_network G uniform =
             (case nodes_loop p 0 (node_positions G) ([], Map.empty) of
                Inl e \<Rightarrow> Inl e
              | Inr (ns, m) \<Rightarrow>
                  Inr (Some p, \<lparr>nodes = ns, edges = edges_loop m uniform 0 (G_edges G) []\<rparr>))"
    by blast
  from assms length_node_positions [of G] have "0 + length (node_positions G) \<le> 28965248"
    by simp
  from nodes_loop_succeeds [OF this] obtain r where
    "nodes_loop p 0 (node_positions G) ([], Map.empty) = Inr r"
    by blast
  with g show ?thesis
    by (cases r) simp
qed

subsection \<open>Labels of the emitted nodes\<close>

lemma nodes_loop_labels:
  assumes "nodes_loop p idx np (ns, m) = Inr (ns', m')"
  shows "map (\<lambda>n. Inr (node_label n)) ns' =
           map (\<lambda>n. Inr (node_label n)) ns @ map label [idx..<idx + length np]"
  using assms
proof (induction np arbitrary: idx ns m)
  case Nil
  then show ?case by simp
next
  case (Cons a np)
  obtain nid x y where a: "a = (nid, x, y)" by (cases a)
  from Cons.prems obtain l where l: "label idx = Inr l"
    and rest: "nodes_loop p (idx + 1) np
                 (ns @ [\<lparr>node_id = str_int nid,
                          node_x = py_round (margin + (x - norm_min_x p) * norm_scale p) 2,
                          node_y = py_round (margin + (y - norm_min_y p) * norm_scale p) 2,
                          node_label = l\<rparr>],
                  m(nid \<mapsto> str_int nid)) = Inr (ns', m')"
    unfolding a by (auto simp: Let_def split: sum.splits)
  have u: "[idx..<idx + length (a # np)] = idx # [idx + 1..<idx + 1 + length np]"
    by (subst upt_rec) simp
  from Cons.IH [OF rest] show ?case
    unfolding u by (simp add: l)
qed

lemma generate_network_label:
  assumes g: "generate_network G uniform = Inr (po, d)" and i: "idx < length (nodes d)"
  shows "label idx = Inr (node_label (nodes d ! idx))"
proof -
  from generate_network_Inr [OF g] i obtain p ns m where
    nl: "nodes_loop p 0 (node_positions G) ([], Map.empty) = Inr (ns, m)"
    and d: "nodes d = ns"
    by auto
  from nodes_loop_labels [OF nl] have
    e: "map (\<lambda>n. Inr (node_label n)) ns = map label [0..<length (node_positions G)]"
    by simp
  from arg_cong [OF e, of length] have len: "length ns = length (node_positions G)"
    by simp
  from i d len have i': "idx < length (node_positions G)" by simp
  from arg_cong [OF e, of "\<lambda>xs. xs ! idx"] i i' d
  show ?thesis by simp
qed

lemma generate_network_length:
  assumes "generate_network G uniform = Inr (po, d)"
  shows "length (nodes d) = length (node_positions G)"
proof -
  from generate_network_Inr [OF assms] consider
      "node_positions G = []" "d = \<lparr>nodes = [], edges = []\<rparr>"
    | p ns m where "nodes_loop p 0 (node_positions G) ([], Map.empty) = Inr (ns, m)"
        "nodes d = ns"
    by auto
  then show ?thesis
  proof cases
    case 1
    then show ?thesis by simp
  next
    case 2
    from nodes_loop_Inr [OF 2(1)] have
      "map node_id ns = map (\<lambda>(nid, x, y). str_int nid) (node_positions G)"
      by simp
    from arg_cong [OF this, of length] 2(2) show ?thesis by simp
  qed
qed

lemma update_new_key: "k \<notin> fst ` set al \<Longrightarrow> AList.update k v al = al @ [(k, v)]"
  by (induction al) auto

lemma fold_update_distinct:
  assumes "distinct (map fst xs)" and "fst ` set acc \<inter> fst ` set xs = {}"
  shows "fold (\<lambda>(nid, data) np.
             AList.update nid (dict_get (raw_x data) 0, dict_get (raw_y data) 0) np) xs acc
         = acc @ map (\<lambda>(nid, data). (nid, dict_get (raw_x data) 0, dict_get (raw_y data) 0)) xs"
  using assms
proof (induction xs arbitrary: acc)
  case Nil
  show ?case by simp
next
  case (Cons a xs)
  obtain nid data where a: "a = (nid, data)" by (cases a)
  from Cons.prems(2) have new: "nid \<notin> fst ` set acc"
    unfolding a by auto
  from Cons.prems have d: "distinct (map fst xs)"
    and disj: "fst ` set (acc @ [(nid, dict_get (raw_x data) 0, dict_get (raw_y data) 0)])
                 \<inter> fst ` set xs = {}"
    unfolding a by auto
  from Cons.IH [OF d disj] show ?case
    unfolding a by (simp add: update_new_key [OF new])
qed

lemma length_node_positions_distinct:
  "distinct (map fst (G_nodes G)) \<Longrightarrow> length (node_positions G) = length (G_nodes G)"
  unfolding node_positions_def by (subst fold_update_distinct) simp_all

lemma G_many_nodes: "length (node_positions G_many) = 703"
proof -
  have "map fst (G_nodes G_many) = map int [0..<703]"
    by (simp add: G_many_def comp_def)
  moreover have "distinct (map int [0..<703])"
    by (simp add: distinct_map inj_on_def)
  ultimately have "distinct (map fst (G_nodes G_many))" by simp
  from length_node_positions_distinct [OF this] show ?thesis
    by (simp add: G_many_def)
qed

lemma G_many_label:
  "\<exists>po d. generate_network G_many uniform = Inr (po, d) \<and> 702 < length (nodes d) \<and>
          node_label (nodes d ! 702) = [91, 65]"
proof -
  have "length (G_nodes G_many) \<le> 28965248"
    by (simp add: G_many_def)
  from generate_network_completes [OF this, of uniform] obtain po d where
    g: "generate_network G_many uniform = Inr (po, d)"
    by blast
  from generate_network_length [OF g] G_many_nodes have len: "702 < length (nodes d)"
    by simp
  from generate_network_label [OF g len] label_702 have "node_label (nodes d ! 702) = [91, 65]"
    by simp
  with g len show ?thesis by blast
qed


text \<open>
  C10. The label of the node that the Fetcher emits at position \<open>idx\<close> is
  \<open>label idx\<close>. For every index below 702 it is made of capital letters only (code
  points 65 to 90): one letter \<open>chr(65 + idx)\<close> below 26, and from 26 on the two
  letters \<open>chr(65 + idx // 26 - 1)\<close> and \<open>chr(65 + idx % 26)\<close>. From 702 on this
  no longer holds: on a graph of 703 nodes the run completes and the label of the node
  at position 702 starts with the code point 91.
\<close>

theorem label_alphabet:
  "(generate_network G uniform = Inr (po, d) \<longrightarrow> idx < length (nodes d) \<longrightarrow>
      label idx = Inr (node_label (nodes d ! idx)) \<and>
      (idx < 702 \<longrightarrow>
         (\<forall>c\<in>set (node_label (nodes d ! idx)). 65 \<le> c \<and> c \<le> 90) \<and>
         node_label (nodes d ! idx) =
           (if idx < 26 then [65 + idx] else [65 + (idx div 26 - 1), 65 + idx mod 26]))) \<and>
   (idx < 702 \<longrightarrow>
      (\<exists>s. label idx = Inr s \<and> (\<forall>c\<in>set s. 65 \<le> c \<and> c \<le> 90) \<and>
           s = (if idx < 26 then [65 + idx] else [65 + (idx div 26 - 1), 65 + idx mod 26]))) \<and>
   (\<exists>j\<ge>702. \<exists>s. label j = Inr s \<and> (\<exists>c\<in>set s. c < 65 \<or> 90 < c)) \<and>
   (\<exists>po' d'. generate_network G_many uniform = Inr (po', d') \<and> 702 < length (nodes d') \<and>
       node_label (nodes d' ! 702) = [91, 65] \<and>
       (\<exists>c\<in>set (node_label (nodes d' ! 702)). c < 65 \<or> 90 < c))"
proof -
  have small: "\<exists>s. label idx = Inr s \<and> (\<forall>c\<in>set s. 65 \<le> c \<and> c \<le> 90) \<and>
           s = (if idx < 26 then [65 + idx] else [65 + (idx div 26 - 1), 65 + idx mod 26])"
    if lt: "idx < 702"
  proof (cases "idx < 26")
    case True
    then show ?thesis by (simp add: label_small)
  next
    case False
    with lt have l: "label idx = Inr [65 + (idx div 26 - 1), 65 + idx mod 26]"
      by (simp add: label_two)
    from lt have "idx div 26 \<le> 26" by arith
    then have "65 + (idx div 26 - 1) \<le> 90" by arith
    moreover have "65 + idx mod 26 \<le> 90"
      using mod_less_divisor [of 26 idx] by arith
    ultimately show ?thesis using False l by simp
  qed
  have emitted: "label idx = Inr (node_label (nodes d ! idx)) \<and>
      (idx < 702 \<longrightarrow>
         (\<forall>c\<in>set (node_label (nodes d ! idx)). 65 \<le> c \<and> c \<le> 90) \<and>
         node_label (nodes d ! idx) =
           (if idx < 26 then [65 + idx] else [65 + (idx div 26 - 1), 65 + idx mod 26]))"
    if g: "generate_network G uniform = Inr (po, d)" and i: "idx < length (nodes d)"
  proof -
    from generate_network_label [OF g i] have l: "label idx = Inr (node_label (nodes d ! idx))" .
    with small show ?thesis by auto
  qed
  have big: "\<exists>j\<ge>702. \<exists>s. label j = Inr s \<and> (\<exists>c\<in>set s. c < 65 \<or> 90 < c)"
    using label_702 by (intro exI [of _ 702] exI [of _ "[91, 65]"]) simp
  from G_many_label [of uniform] obtain po' d' where
    m: "generate_network G_many uniform = Inr (po', d')" "702 < length (nodes d')"
       "node_label (nodes d' ! 702) = [91, 65]"
    by blast
  then have many: "\<exists>po' d'. generate_network G_many uniform = Inr (po', d') \<and>
       702 < length (nodes d') \<and> node_label (nodes d' ! 702) = [91, 65] \<and>
       (\<exists>c\<in>set (node_label (nodes d' ! 702)). c < 65 \<or> 90 < c)"
    by (intro exI [of _ po'] exI [of _ d']) simp
  from small emitted big many show ?thesis by blast
qed

theorem label_alphabet_witness:
  "generate_network G_two uniform_const = Inr (Some norm_two, doc_two) \<and>
   (1::nat) < length (nodes doc_two) \<and> (1::nat) < 702 \<and>
   label 1 = Inr (node_label (nodes doc_two ! 1)) \<and>
   node_label (nodes doc_two ! 1) = [66] \<and>
   label 27 = Inr [65, 66] \<and> label 0 = Inr [65] \<and>
   label 26 = Inr [65, 65] \<and> label 701 = Inr [90, 90] \<and> label 702 = Inr [91, 65]"
proof -
  have len: "(1::nat) < length (nodes doc_two)"
    by (simp add: doc_two_def)
  from label_alphabet [of G_two uniform_const "Some norm_two" doc_two 1] generate_G_two len
  have e: "label 1 = Inr (node_label (nodes doc_two ! 1))"
    and v: "node_label (nodes doc_two ! 1) = [66]"
    by simp_all
  from label_alphabet [of G_two uniform_const "Some norm_two" doc_two 27]
  have "label 27 = Inr [65, 66]"
    by simp
  moreover from label_alphabet [of G_two uniform_const "Some norm_two" doc_two 0]
  have "label 0 = Inr [65]"
    by simp
  moreover from label_alphabet [of G_two uniform_const "Some norm_two" doc_two 26]
  have "label 26 = Inr [65, 65]"
    by simp
  moreover from label_alphabet [of G_two uniform_const "Some norm_two" doc_two 701]
  have "label 701 = Inr [90, 90]"
    by simp
  ultimately show ?thesis
    using e v len generate_G_two by (simp add: label_702)
qed

subsection \<open>A graph without nodes\<close>

text \<open>
  C7, as stated: on a graph with zero nodes the scale computation falls back to a scale
  of 1. It does not: \<open>node_positions\<close> is empty, the block under
  \<open>if node_positions:\<close> is skipped as a whole, and no scale is computed at all.
\<close>

theorem fetcher_empty_graph_counterexample:
  "G_nodes G_empty = [] \<and>
   generate_network G_empty uniform_const = Inr (None, \<lparr>nodes = [], edges = []\<rparr>) \<and>
   bound_scale (generate_network G_empty uniform_const) = None \<and>
   bound_scale (generate_network G_empty uniform_const) \<noteq> Some 1"
  by (simp add: generate_G_empty bound_scale_def) (simp add: G_empty_def)

text \<open>
  C7, amended. On a graph with zero nodes the Fetcher raises no error: the normalization
  is skipped, no scale is bound, and the run completes with an empty node list and an
  empty edge list. On no graph does the run end in a \<open>ZeroDivisionError\<close>. The
  fallback to 1 belongs to the per-axis scale of a graph that has nodes: an axis on which
  all nodes have the same coordinate gets the scale 1.
\<close>

theorem fetcher_empty_graph:
  "(G_nodes G = [] \<longrightarrow>
      generate_network G uniform = Inr (None, \<lparr>nodes = [], edges = []\<rparr>) \<and>
      bound_scale (generate_network G uniform) = None) \<and>
   generate_network G uniform \<noteq> Inl ZeroDivisionError \<and>
   (generate_network G uniform = Inr (Some p, d) \<longrightarrow>
      ((\<forall>a\<in>set (node_positions G). \<forall>b\<in>set (node_positions G). fst (snd a) = fst (snd b))
         \<longrightarrow> norm_scale_x p = 1) \<and>
      ((\<forall>a\<in>set (node_positions G). \<forall>b\<in>set (node_positions G). snd (snd a) = snd (snd b))
         \<longrightarrow> norm_scale_y p = 1))"
proof (intro conjI impI)
  assume "G_nodes G = []"
  then have e: "generate_network G uniform = Inr (None, \<lparr>nodes = [], edges = []\<rparr>)"
    by (simp add: node_positions_Nil generate_network_empty)
  then show "generate_network G uniform = Inr (None, \<lparr>nodes = [], edges = []\<rparr>)" .
  from e show "bound_scale (generate_network G uniform) = None"
    by (simp add: bound_scale_def)
next
  show "generate_network G uniform \<noteq> Inl ZeroDivisionError"
    by (rule generate_network_no_zero_division)
next
  assume g: "generate_network G uniform = Inr (Some p, d)"
  from generate_network_Inr [OF g] have ne: "node_positions G \<noteq> []"
    and cs: "compute_scale (node_positions G) = Inr p"
    by auto
  {
    assume "\<forall>a\<in>set (node_positions G). \<forall>b\<in>set (node_positions G). fst (snd a) = fst (snd b)"
    with compute_scale_fallback(1) [OF cs ne] show "norm_scale_x p = 1" by blast
  }
  {
    assume "\<forall>a\<in>set (node_positions G). \<forall>b\<in>set (node_positions G). snd (snd a) = snd (snd b)"
    with compute_scale_fallback(2) [OF cs ne] show "norm_scale_y p = 1" by blast
  }
qed

theorem fetcher_empty_graph_witness:
  "G_nodes G_empty = [] \<and>
   generate_network G_empty uniform_const = Inr (None, \<lparr>nodes = [], edges = []\<rparr>) \<and>
   bound_scale (generate_network G_empty uniform_const) = None \<and>
   generate_network G_single uniform_const = Inr (Some norm_single, doc_single) \<and>
   node_positions G_single = [(7, 3, 0)] \<and>
   norm_scale_x norm_single = 1 \<and> norm_scale_y norm_single = 1"
proof -
  have e: "G_nodes G_empty = []"
    by (simp add: G_empty_def)
  have a: "\<forall>a\<in>set (node_positions G_single). \<forall>b\<in>set (node_positions G_single).
             fst (snd a) = fst (snd b)"
    and b: "\<forall>a\<in>set (node_positions G_single). \<forall>b\<in>set (node_positions G_single).
             snd (snd a) = snd (snd b)"
    by (simp_all add: node_positions_G_single)
  from fetcher_empty_graph [of G_empty uniform_const] e
  have "generate_network G_empty uniform_const = Inr (None, \<lparr>nodes = [], edges = []\<rparr>)"
    and "bound_scale (generate_network G_empty uniform_const) = None"
    by blast+
  moreover from fetcher_empty_graph [of G_single uniform_const norm_single doc_single]
    generate_G_single a b
  have "norm_scale_x norm_single = 1" and "norm_scale_y norm_single = 1"
    by blast+
  ultimately show ?thesis
    using e generate_G_single node_positions_G_single by simp
qed

subsection \<open>Drawing area\<close>




subsection \<open>Drawing area in double arithmetic\<close>





































subsection \<open>Edges\<close>

lemma no_dangling_edge_iff:
  "no_dangling_edge d \<longleftrightarrow>
     (\<forall>e\<in>set (edges d). edge_from e \<in> node_id ` set (nodes d) \<and>
                         edge_to e \<in> node_id ` set (nodes d))"
  by (simp add: no_dangling_edge_def list_all_iff)

lemma generate_network_edges:
  assumes g: "generate_network G uniform = Inr (po, d)" and e: "e \<in> set (edges d)"
  shows "\<exists>u v j. u \<in> fst ` set (node_positions G) \<and> v \<in> fst ` set (node_positions G) \<and>
           edge_from e = str_int u \<and> edge_to e = str_int v \<and>
           str_int u \<in> node_id ` set (nodes d) \<and> str_int v \<in> node_id ` set (nodes d) \<and>
           edge_weight e = py_round (uniform j) 1"
proof -
  from generate_network_Inr [OF g] e obtain p ns m where
    nl: "nodes_loop p 0 (node_positions G) ([], Map.empty) = Inr (ns, m)"
    and d: "d = \<lparr>nodes = ns, edges = edges_loop m uniform 0 (G_edges G) []\<rparr>"
    by auto
  from nodes_loop_Inr [OF nl] have
    ids: "map node_id ns = map (\<lambda>(nid, x, y). str_int nid) (node_positions G)"
    and m: "m = (\<lambda>k. if k \<in> fst ` set (node_positions G) then Some (str_int k) else None)"
    by simp_all
  have keys: "str_int k \<in> node_id ` set ns" if "k \<in> fst ` set (node_positions G)" for k
  proof -
    from that obtain t where t: "t \<in> set (node_positions G)" and k: "k = fst t" by auto
    then have "str_int k \<in> set (map (\<lambda>(nid, x, y). str_int nid) (node_positions G))"
      by (auto simp: case_prod_unfold)
    then show ?thesis
      unfolding ids [symmetric] by simp
  qed
  from e have "e \<in> set (edges_loop m uniform 0 (G_edges G) [])"
    unfolding d by simp
  from edges_loop_mem [OF this] obtain u v j where
    mu: "m u = Some (edge_from e)" and mv: "m v = Some (edge_to e)"
    and w: "edge_weight e = py_round (uniform j) 1"
    by auto
  from mu have u: "u \<in> fst ` set (node_positions G)" and fu: "edge_from e = str_int u"
    unfolding m by (simp_all split: if_splits)
  from mv have v: "v \<in> fst ` set (node_positions G)" and tv: "edge_to e = str_int v"
    unfolding m by (simp_all split: if_splits)
  from keys [OF u] keys [OF v] have "str_int u \<in> node_id ` set (nodes d)"
    and "str_int v \<in> node_id ` set (nodes d)"
    unfolding d by simp_all
  with u v fu tv w show ?thesis by blast
qed

lemma filter_network_edges:
  assumes "filter_network data = Inr (min_x, out)"
  shows "nodes out = nodes_to_keep min_x data" and "edges out = edges_to_keep min_x data"
  using assms by (auto simp: filter_network_cases split: if_splits)

text \<open>
  C5. Whenever the Fetcher completes, both ids of every edge it emits are ids of nodes it
  emits; and whenever the Filter succeeds, on any input document, both ids of every edge
  of its output are ids of nodes of its output.
\<close>

theorem no_dangling_edges:
  "(generate_network G uniform = Inr (po, d) \<longrightarrow> no_dangling_edge d) \<and>
   (filter_network data = Inr (min_x, out) \<longrightarrow> no_dangling_edge out)"
proof (intro conjI impI)
  assume g: "generate_network G uniform = Inr (po, d)"
  show "no_dangling_edge d"
    unfolding no_dangling_edge_iff
  proof
    fix e assume "e \<in> set (edges d)"
    from generate_network_edges [OF g this]
    show "edge_from e \<in> node_id ` set (nodes d) \<and> edge_to e \<in> node_id ` set (nodes d)"
      by auto
  qed
next
  assume f: "filter_network data = Inr (min_x, out)"
  show "no_dangling_edge out"
    unfolding no_dangling_edge_iff filter_network_edges [OF f]
    by (simp add: edges_to_keep_def node_ids_to_keep_def)
qed

theorem no_dangling_edges_witness:
  "generate_network G_two uniform_const = Inr (Some norm_two, doc_two) \<and>
   no_dangling_edge doc_two \<and>
   filter_network doc_partial = Inr (5, doc_filtered) \<and>
   no_dangling_edge doc_filtered"
  using no_dangling_edges [of G_two uniform_const "Some norm_two" doc_two doc_partial 5 doc_filtered]
    generate_G_two filter_doc_partial
  by blast

text \<open>
  C8. Given that \<open>random.uniform(1, 20)\<close> returns numbers between 1 and 20, every
  edge weight the Fetcher assigns is between 1 and 20 (so positive) and is a multiple
  of 1/10. The Filter's output edges are records of the input, unchanged and in the
  input's order: the output edge list is the input edge list restricted to the edges
  that are kept.
\<close>

theorem edge_weights:
  assumes u: "\<forall>k. 1 \<le> uniform k \<and> uniform k \<le> 20"
  shows "(generate_network G uniform = Inr (po, d) \<longrightarrow>
            (\<forall>e\<in>set (edges d). 1 \<le> edge_weight e \<and> edge_weight e \<le> 20 \<and>
               (\<exists>i::int. edge_weight e = of_int i / 10))) \<and>
         (filter_network data = Inr (min_x, out) \<longrightarrow>
            set (edges out) \<subseteq> set (edges data) \<and>
            edges out = filter (\<lambda>e. e \<in> set (edges out)) (edges data))"
proof (intro conjI impI ballI)
  fix e
  assume g: "generate_network G uniform = Inr (po, d)" and e: "e \<in> set (edges d)"
  from generate_network_edges [OF g e] obtain j where
    w: "edge_weight e = py_round (uniform j) 1"
    by blast
  from u have "of_int 1 \<le> uniform j" and "uniform j \<le> of_int 20"
    by simp_all
  from py_round_between [OF this, of 1] show "1 \<le> edge_weight e" and "edge_weight e \<le> 20"
    unfolding w by simp_all
  from py_round_decimal [of "uniform j" 1] show "\<exists>i::int. edge_weight e = of_int i / 10"
    unfolding w by simp
next
  assume f: "filter_network data = Inr (min_x, out)"
  show "set (edges out) \<subseteq> set (edges data)"
    unfolding filter_network_edges [OF f] edges_to_keep_def by auto
  show "edges out = filter (\<lambda>e. e \<in> set (edges out)) (edges data)"
    unfolding filter_network_edges [OF f] edges_to_keep_def
    by (rule filter_cong [OF refl, symmetric]) auto
qed

theorem edge_weights_witness:
  "(\<forall>k. 1 \<le> uniform_const k \<and> uniform_const k \<le> 20) \<and>
   generate_network G_two uniform_const = Inr (Some norm_two, doc_two) \<and>
   map edge_weight (edges doc_two) = [36 / 5] \<and>
   1 \<le> edge_weight (edges doc_two ! 0) \<and> edge_weight (edges doc_two ! 0) \<le> 20 \<and>
   filter_network doc_partial = Inr (5, doc_filtered) \<and>
   edges doc_filtered = [edges doc_partial ! 1]"
proof -
  have h: "\<forall>k. 1 \<le> uniform_const k \<and> uniform_const k \<le> 20"
    by (simp add: uniform_const_def)
  have m: "edges doc_two ! 0 \<in> set (edges doc_two)"
    by (simp add: doc_two_def)
  from edge_weights [OF h, of G_two "Some norm_two" doc_two doc_partial 5 doc_filtered]
    generate_G_two m
  have "1 \<le> edge_weight (edges doc_two ! 0) \<and> edge_weight (edges doc_two ! 0) \<le> 20"
    by blast
  moreover have "map edge_weight (edges doc_two) = [36 / 5]"
    by (simp add: doc_two_def)
  moreover have "edges doc_filtered = [edges doc_partial ! 1]"
    by (simp add: doc_filtered_def doc_partial_def)
  ultimately show ?thesis
    using h generate_G_two filter_doc_partial by simp
qed

end
